theory Spec2Isabelle
  imports Main "HOL-Library.Word"
begin

section \<open>The in-memory store of simple-main.go\<close>

text \<open>
  The store is the type \<open>MemoryDB\<close> of \<open>simple-main.go\<close>: two Go maps from
  \<open>uint\<close> to \<open>*User\<close> and \<open>*Product\<close>, and two \<open>uint\<close> counters. The maps hold
  pointers, and \<open>CreateUser\<close> writes through the pointer it is given before it stores it,
  so the embedding keeps an explicit heap of records beside the store.

  \<^item> \<open>uint\<close> is Go's unsigned machine integer on a 64-bit target: a 64-bit word, whose
    \<open>+\<close> wraps around as \<open>db.userID++\<close> does.
  \<^item> \<open>float64\<close> is kept as its IEEE-754 bit pattern; the store never computes with it.
  \<^item> \<open>time.Time\<close> is the number of nanoseconds since the zero value of \<open>time.Time\<close>,
    so \<open>0\<close> is the value for which \<open>IsZero\<close> holds. \<open>time.Now()\<close> is an input of every
    function that calls it.
  \<^item> A pointer is \<open>None\<close> (Go's \<open>nil\<close>) or \<open>Some a\<close>, the index \<open>a\<close> of a record in
    the heap of its type.
  \<^item> \<open>sync.RWMutex\<close> is not part of the sequential embedding: every function below is
    one critical section, executed from \<open>Lock\<close> to the deferred \<open>Unlock\<close>.
\<close>

type_synonym uint = "64 word"
type_synonym float64 = "64 word"
type_synonym gotime = int
type_synonym ref = "nat option"

record User =
  ID :: uint
  Username :: string
  Email :: string
  FullName :: string
  IsActive :: bool
  CreateAt :: gotime

record Product =
  ID :: uint
  Name :: string
  Description :: string
  Price :: float64
  Stock :: "64 word"
  Category :: string
  IsActive :: bool
  CreateAt :: gotime

record MemoryDB =
  users :: "uint \<rightharpoonup> ref"
  products :: "uint \<rightharpoonup> ref"
  userID :: uint
  prodID :: uint

text \<open>
  The program state: the \<open>User\<close> objects and the \<open>Product\<close> objects allocated so far
  (an address is an index), and the store that the global variable \<open>db\<close> points to.
\<close>

record world =
  uheap :: "User list"
  pheap :: "Product list"
  db :: MemoryDB

text \<open>
  Writing through a \<open>nil\<close> pointer panics in Go. An address outside the heap is not a
  value a Go program can hold; the embedding reports it as \<open>BadAddress\<close> so that every
  function stays total.
\<close>

datatype error = NilDereference | BadAddress

definition load_User :: "ref \<Rightarrow> world \<Rightarrow> error + User" where
  "load_User p w =
     (case p of
        None \<Rightarrow> Inl NilDereference
      | Some a \<Rightarrow> if a < length (uheap w) then Inr (uheap w ! a) else Inl BadAddress)"

definition load_Product :: "ref \<Rightarrow> world \<Rightarrow> error + Product" where
  "load_Product p w =
     (case p of
        None \<Rightarrow> Inl NilDereference
      | Some a \<Rightarrow> if a < length (pheap w) then Inr (pheap w ! a) else Inl BadAddress)"

subsection \<open>NewMemoryDB\<close>

text \<open>
  The two literals of \<open>NewMemoryDB\<close>. The strings that are not ASCII are the UTF-8 bytes
  of the source's literals; \<open>0x4058FF5C28F5C28F\<close> is the bit pattern of \<open>99.99\<close>.
\<close>

definition seed_User :: "gotime \<Rightarrow> User" where
  "seed_User now =
     \<lparr>User.ID = 1,
      Username = ''admin'',
      Email = ''admin@example.com'',
      FullName = [CHR 0xE7, CHR 0xB3, CHR 0xBB, CHR 0xE7, CHR 0xBB, CHR 0x9F, CHR 0xE7,
                  CHR 0xAE, CHR 0xA1, CHR 0xE7, CHR 0x90, CHR 0x86, CHR 0xE5, CHR 0x91,
                  CHR 0x98],
      User.IsActive = True,
      User.CreateAt = now\<rparr>"

definition seed_Product :: "gotime \<Rightarrow> Product" where
  "seed_Product now =
     \<lparr>Product.ID = 1,
      Name = [CHR 0x47, CHR 0x6F, CHR 0xE5, CHR 0xAD, CHR 0xA6, CHR 0xE4, CHR 0xB9,
              CHR 0xA0, CHR 0xE6, CHR 0x8C, CHR 0x87, CHR 0xE5, CHR 0x8D, CHR 0x97],
      Description = [CHR 0xE4, CHR 0xBB, CHR 0x8E, CHR 0xE5, CHR 0x85, CHR 0xA5, CHR 0xE9,
              CHR 0x97, CHR 0xA8, CHR 0xE5, CHR 0x88, CHR 0xB0, CHR 0xE7, CHR 0xB2,
              CHR 0xBE, CHR 0xE9, CHR 0x80, CHR 0x9A, CHR 0xE7, CHR 0x9A, CHR 0x84,
              CHR 0x47, CHR 0x6F, CHR 0xE8, CHR 0xAF, CHR 0xAD, CHR 0xE8, CHR 0xA8,
              CHR 0x80, CHR 0xE5, CHR 0xAD, CHR 0xA6, CHR 0xE4, CHR 0xB9, CHR 0xA0,
              CHR 0xE8, CHR 0xB5, CHR 0x84, CHR 0xE6, CHR 0x96, CHR 0x99],
      Price = 0x4058FF5C28F5C28F,
      Stock = 100,
      Category = [CHR 0xE4, CHR 0xB9, CHR 0xA6, CHR 0xE7, CHR 0xB1, CHR 0x8D],
      Product.IsActive = True,
      Product.CreateAt = now\<rparr>"

text \<open>
  \<open>NewMemoryDB\<close> in a program whose heaps already hold the objects \<open>uh\<close> and \<open>ph\<close>:
  both maps are made empty and both counters set to 1; then the two seed records are
  allocated (at the next free addresses) and stored under key 1. \<open>tu\<close> and \<open>tp\<close> are
  the two readings of \<open>time.Now()\<close>. The counters are not touched by the seeding.
\<close>

definition NewMemoryDB :: "gotime \<Rightarrow> gotime \<Rightarrow> User list \<Rightarrow> Product list \<Rightarrow> world" where
  "NewMemoryDB tu tp uh ph =
     (let d0 = \<lparr>users = Map.empty, products = Map.empty, userID = 1, prodID = 1\<rparr>;
          d1 = d0\<lparr>users := (users d0)(1 \<mapsto> Some (length uh))\<rparr>;
          d2 = d1\<lparr>products := (products d1)(1 \<mapsto> Some (length ph))\<rparr>
      in \<lparr>uheap = uh @ [seed_User tu], pheap = ph @ [seed_Product tp], db = d2\<rparr>)"

subsection \<open>The user operations\<close>

text \<open>
  \<open>GetAllUsers\<close> ranges over the map. Go leaves the order of a map range unspecified,
  so the order in which the runtime yields the entries is a parameter \<open>es\<close>; it is an
  order of the map when \<open>range_order\<close> holds: every entry once, and nothing else.
\<close>

definition range_order :: "(uint \<rightharpoonup> ref) \<Rightarrow> (uint \<times> ref) list \<Rightarrow> bool" where
  "range_order m es \<longleftrightarrow> distinct (map fst es) \<and> map_of es = m"

definition GetAllUsers :: "(uint \<times> ref) list \<Rightarrow> world \<Rightarrow> ref list" where
  "GetAllUsers es w = foldl (\<lambda>users (_, user). users @ [user]) [] es"

definition GetUserByID :: "uint \<Rightarrow> world \<Rightarrow> ref \<times> bool" where
  "GetUserByID id' w =
     (case users (db w) id' of
        None \<Rightarrow> (None, False)
      | Some user \<Rightarrow> (user, True))"

definition CreateUser :: "ref \<Rightarrow> gotime \<Rightarrow> world \<Rightarrow> error + (ref \<times> world)" where
  "CreateUser user now w =
     (case user of
        None \<Rightarrow> Inl NilDereference
      | Some a \<Rightarrow>
          if length (uheap w) \<le> a then Inl BadAddress
          else
            let w1 = w\<lparr>uheap := (uheap w)[a := (uheap w ! a)\<lparr>User.ID := userID (db w)\<rparr>]\<rparr>;
                w2 = w1\<lparr>uheap := (uheap w1)[a := (uheap w1 ! a)\<lparr>User.CreateAt := now\<rparr>]\<rparr>;
                w3 = w2\<lparr>db := (db w2)\<lparr>users := (users (db w2))(userID (db w2) \<mapsto> user)\<rparr>\<rparr>;
                w4 = w3\<lparr>db := (db w3)\<lparr>userID := userID (db w3) + 1\<rparr>\<rparr>
            in Inr (user, w4))"

subsection \<open>The product operations\<close>

definition GetAllProducts :: "(uint \<times> ref) list \<Rightarrow> world \<Rightarrow> ref list" where
  "GetAllProducts es w = foldl (\<lambda>products (_, product). products @ [product]) [] es"

definition GetProductByID :: "uint \<Rightarrow> world \<Rightarrow> ref \<times> bool" where
  "GetProductByID id' w =
     (case products (db w) id' of
        None \<Rightarrow> (None, False)
      | Some product \<Rightarrow> (product, True))"

definition CreateProduct :: "ref \<Rightarrow> gotime \<Rightarrow> world \<Rightarrow> error + (ref \<times> world)" where
  "CreateProduct product now w =
     (case product of
        None \<Rightarrow> Inl NilDereference
      | Some a \<Rightarrow>
          if length (pheap w) \<le> a then Inl BadAddress
          else
            let w1 = w\<lparr>pheap := (pheap w)[a := (pheap w ! a)\<lparr>Product.ID := prodID (db w)\<rparr>]\<rparr>;
                w2 = w1\<lparr>pheap := (pheap w1)[a := (pheap w1 ! a)\<lparr>Product.CreateAt := now\<rparr>]\<rparr>;
                w3 = w2\<lparr>pheap := (pheap w2)[a := (pheap w2 ! a)\<lparr>Product.IsActive := True\<rparr>]\<rparr>;
                w4 = w3\<lparr>db := (db w3)\<lparr>products := (products (db w3))(prodID (db w3) \<mapsto> product)\<rparr>\<rparr>;
                w5 = w4\<lparr>db := (db w4)\<lparr>prodID := prodID (db w4) + 1\<rparr>\<rparr>
            in Inr (product, w5))"

subsection \<open>Sequences of calls\<close>

text \<open>
  A caller of the store allocates a record (\<open>var user User\<close> in \<open>usersHandler\<close>, filled
  in by the JSON decoder) and calls the store's methods. \<open>step\<close> runs one such action
  and returns what the caller sees: for a create the pointer returned and the record
  behind it at the moment of the return (the handler encodes it into the response),
  for a lookup the pointer and the flag, for a listing the slice of pointers.
\<close>

datatype op =
    NewUser User
  | NewProduct Product
  | CallCreateUser ref gotime
  | CallCreateProduct ref gotime
  | CallGetUserByID uint
  | CallGetProductByID uint
  | CallGetAllUsers "(uint \<times> ref) list"
  | CallGetAllProducts "(uint \<times> ref) list"

datatype ret =
    Allocated ref
  | CreatedUser ref User
  | CreatedProduct ref Product
  | GotUser ref bool
  | GotProduct ref bool
  | ListedUsers "ref list"
  | ListedProducts "ref list"

fun step :: "op \<Rightarrow> world \<Rightarrow> error + (ret \<times> world)" where
  "step (NewUser u) w = Inr (Allocated (Some (length (uheap w))), w\<lparr>uheap := uheap w @ [u]\<rparr>)"
| "step (NewProduct p) w = Inr (Allocated (Some (length (pheap w))), w\<lparr>pheap := pheap w @ [p]\<rparr>)"
| "step (CallCreateUser user now) w =
     (case CreateUser user now w of
        Inl e \<Rightarrow> Inl e
      | Inr (r, w') \<Rightarrow>
          (case load_User r w' of Inl e \<Rightarrow> Inl e | Inr u \<Rightarrow> Inr (CreatedUser r u, w')))"
| "step (CallCreateProduct product now) w =
     (case CreateProduct product now w of
        Inl e \<Rightarrow> Inl e
      | Inr (r, w') \<Rightarrow>
          (case load_Product r w' of Inl e \<Rightarrow> Inl e | Inr p \<Rightarrow> Inr (CreatedProduct r p, w')))"
| "step (CallGetUserByID id') w = Inr (case GetUserByID id' w of (r, found) \<Rightarrow> GotUser r found, w)"
| "step (CallGetProductByID id') w =
     Inr (case GetProductByID id' w of (r, found) \<Rightarrow> GotProduct r found, w)"
| "step (CallGetAllUsers es) w = Inr (ListedUsers (GetAllUsers es w), w)"
| "step (CallGetAllProducts es) w = Inr (ListedProducts (GetAllProducts es w), w)"

text \<open>A sequence of actions stops at the first panic.\<close>

fun run :: "op list \<Rightarrow> world \<Rightarrow> error + (ret list \<times> world)" where
  "run [] w = Inr ([], w)"
| "run (c # cs) w =
     (case step c w of
        Inl e \<Rightarrow> Inl e
      | Inr (r, w') \<Rightarrow>
          (case run cs w' of Inl e \<Rightarrow> Inl e | Inr (rs, w'') \<Rightarrow> Inr (r # rs, w'')))"

text \<open>The identities that the create calls of a sequence assigned, in call order.\<close>

fun user_ids :: "ret list \<Rightarrow> uint list" where
  "user_ids [] = []"
| "user_ids (CreatedUser r u # rs) = User.ID u # user_ids rs"
| "user_ids (_ # rs) = user_ids rs"


fun user_creates :: "op list \<Rightarrow> nat" where
  "user_creates [] = 0"
| "user_creates (CallCreateUser user now # cs) = Suc (user_creates cs)"
| "user_creates (_ # cs) = user_creates cs"


subsection \<open>Observations and invariants used in the statements\<close>

text \<open>
  The identities a sequence of calls assigned, read off its run; the empty list if the
  run panics.
\<close>

definition created_user_ids :: "op list \<Rightarrow> world \<Rightarrow> uint list" where
  "created_user_ids cs w = (case run cs w of Inl e \<Rightarrow> [] | Inr (rs, w') \<Rightarrow> user_ids rs)"

text \<open>The pointers that the \<open>CreateUser\<close> calls of a sequence were given.\<close>

fun user_args :: "op list \<Rightarrow> ref list" where
  "user_args [] = []"
| "user_args (CallCreateUser user now # cs) = user # user_args cs"
| "user_args (_ # cs) = user_args cs"

text \<open>
  The zero values of the two struct types: what \<open>var user User\<close> and
  \<open>var product Product\<close> in the handlers hold before the decoder fills them in.
\<close>

definition zero_User :: User where
  "zero_User =
     \<lparr>User.ID = 0, Username = [], Email = [], FullName = [], User.IsActive = False,
      User.CreateAt = 0\<rparr>"

definition zero_Product :: Product where
  "zero_Product =
     \<lparr>Product.ID = 0, Name = [], Description = [], Price = 0, Stock = 0, Category = [],
      Product.IsActive = False, Product.CreateAt = 0\<rparr>"

text \<open>What a caller reads through the pointers of a slice it holds.\<close>

definition user_records :: "ref list \<Rightarrow> world \<Rightarrow> (error + User) list" where
  "user_records ps w = map (\<lambda>p. load_User p w) ps"

text \<open>Every pointer in a map is a record of the heap (never nil, never dangling).\<close>

definition users_valid :: "world \<Rightarrow> bool" where
  "users_valid w \<longleftrightarrow>
     (\<forall>k r. users (db w) k = Some r \<longrightarrow> (\<exists>a. r = Some a \<and> a < length (uheap w)))"

text \<open>Every stored record carries the key it is stored under.\<close>

definition user_ids_match :: "world \<Rightarrow> bool" where
  "user_ids_match w \<longleftrightarrow>
     (\<forall>k r. users (db w) k = Some r \<longrightarrow>
        (\<exists>a. r = Some a \<and> a < length (uheap w) \<and> User.ID (uheap w ! a) = k))"

definition product_ids_match :: "world \<Rightarrow> bool" where
  "product_ids_match w \<longleftrightarrow>
     (\<forall>k r. products (db w) k = Some r \<longrightarrow>
        (\<exists>a. r = Some a \<and> a < length (pheap w) \<and> Product.ID (pheap w ! a) = k))"

text \<open>
  A create call is given a record that the store does not already hold under another
  key than the one it is about to use; \<open>unshared\<close> says so of every create call of a
  sequence, each in the state it is made in.
\<close>

fun arg_unshared :: "op \<Rightarrow> world \<Rightarrow> bool" where
  "arg_unshared (CallCreateUser user now) w \<longleftrightarrow>
     (\<forall>k. users (db w) k = Some user \<longrightarrow> k = userID (db w))"
| "arg_unshared (CallCreateProduct product now) w \<longleftrightarrow>
     (\<forall>k. products (db w) k = Some product \<longrightarrow> k = prodID (db w))"
| "arg_unshared _ w \<longleftrightarrow> True"

fun unshared :: "op list \<Rightarrow> world \<Rightarrow> bool" where
  "unshared [] w \<longleftrightarrow> True"
| "unshared (c # cs) w \<longleftrightarrow>
     arg_unshared c w \<and> (case step c w of Inl e \<Rightarrow> True | Inr (r, w') \<Rightarrow> unshared cs w')"

section \<open>The operations as equations\<close>

lemma CreateUser_eq:
  "CreateUser user now w =
     (case user of
        None \<Rightarrow> Inl NilDereference
      | Some a \<Rightarrow>
          if a < length (uheap w) then
            Inr (user,
                 w\<lparr>uheap := (uheap w)[a := (uheap w ! a)\<lparr>User.ID := userID (db w), User.CreateAt := now\<rparr>],
                   db := (db w)\<lparr>users := (users (db w))(userID (db w) \<mapsto> user),
                                userID := userID (db w) + 1\<rparr>\<rparr>)
          else Inl BadAddress)"
  by (simp add: CreateUser_def Let_def split: option.splits)

lemma CreateProduct_eq:
  "CreateProduct product now w =
     (case product of
        None \<Rightarrow> Inl NilDereference
      | Some a \<Rightarrow>
          if a < length (pheap w) then
            Inr (product,
                 w\<lparr>pheap := (pheap w)[a := (pheap w ! a)\<lparr>Product.ID := prodID (db w),
                                         Product.CreateAt := now, Product.IsActive := True\<rparr>],
                   db := (db w)\<lparr>products := (products (db w))(prodID (db w) \<mapsto> product),
                                prodID := prodID (db w) + 1\<rparr>\<rparr>)
          else Inl BadAddress)"
  by (simp add: CreateProduct_def Let_def split: option.splits)

lemma step_CreateUser_eq:
  "step (CallCreateUser user now) w =
     (case user of
        None \<Rightarrow> Inl NilDereference
      | Some a \<Rightarrow>
          if a < length (uheap w) then
            Inr (CreatedUser user ((uheap w ! a)\<lparr>User.ID := userID (db w), User.CreateAt := now\<rparr>),
                 w\<lparr>uheap := (uheap w)[a := (uheap w ! a)\<lparr>User.ID := userID (db w), User.CreateAt := now\<rparr>],
                   db := (db w)\<lparr>users := (users (db w))(userID (db w) \<mapsto> user),
                                userID := userID (db w) + 1\<rparr>\<rparr>)
          else Inl BadAddress)"
  by (simp add: CreateUser_eq load_User_def split: option.splits)

lemma step_CreateProduct_eq:
  "step (CallCreateProduct product now) w =
     (case product of
        None \<Rightarrow> Inl NilDereference
      | Some a \<Rightarrow>
          if a < length (pheap w) then
            Inr (CreatedProduct product ((pheap w ! a)\<lparr>Product.ID := prodID (db w),
                                         Product.CreateAt := now, Product.IsActive := True\<rparr>),
                 w\<lparr>pheap := (pheap w)[a := (pheap w ! a)\<lparr>Product.ID := prodID (db w),
                                         Product.CreateAt := now, Product.IsActive := True\<rparr>],
                   db := (db w)\<lparr>products := (products (db w))(prodID (db w) \<mapsto> product),
                                prodID := prodID (db w) + 1\<rparr>\<rparr>)
          else Inl BadAddress)"
  by (simp add: CreateProduct_eq load_Product_def split: option.splits)

lemmas step_eqs = step_CreateUser_eq step_CreateProduct_eq

lemma NewMemoryDB_simps:
  "uheap (NewMemoryDB tu tp uh ph) = uh @ [seed_User tu]"
  "pheap (NewMemoryDB tu tp uh ph) = ph @ [seed_Product tp]"
  "users (db (NewMemoryDB tu tp uh ph)) = [1 \<mapsto> Some (length uh)]"
  "products (db (NewMemoryDB tu tp uh ph)) = [1 \<mapsto> Some (length ph)]"
  "userID (db (NewMemoryDB tu tp uh ph)) = 1"
  "prodID (db (NewMemoryDB tu tp uh ph)) = 1"
  by (simp_all add: NewMemoryDB_def Let_def)

lemma run_ConsD:
  assumes "run (c # cs) w = Inr (rs, w')"
  obtains r w1 rs1 where "step c w = Inr (r, w1)" "run cs w1 = Inr (rs1, w')" "rs = r # rs1"
  using assms by (auto split: sum.splits)

section \<open>Counting in uint\<close>

lemma upt_shift: "map (\<lambda>i. f (Suc i)) [0..<n] = map f [1..<Suc n]"
  by (induction n) auto

lemma unat_of_nat_uint: "k < 2 ^ 64 \<Longrightarrow> unat (of_nat k :: uint) = k"
  by (simp add: unat_of_nat)

lemma of_nat_uint_less:
  "i < j \<Longrightarrow> j < 2 ^ 64 \<Longrightarrow> (of_nat i :: uint) < of_nat j"
  by (simp add: word_less_nat_alt unat_of_nat_uint)

lemma sorted_of_nat_uint:
  assumes "n < 2 ^ 64"
  shows "sorted_wrt (<) (map (of_nat :: nat \<Rightarrow> uint) [1..<Suc n])"
proof -
  have "sorted_wrt (\<lambda>i j. (of_nat i :: uint) < of_nat j) [1..<Suc n]"
  proof (rule sorted_wrt_mono_rel [of _ "(<)"])
    show "sorted_wrt (<) [1..<Suc n]" by (rule sorted_wrt_upt)
  next
    fix i j assume "i \<in> set [1..<Suc n]" "j \<in> set [1..<Suc n]" "i < j"
    with assms show "(of_nat i :: uint) < of_nat j" by (intro of_nat_uint_less) auto
  qed
  then show ?thesis by (simp add: sorted_wrt_map)
qed

lemma unat_image_of_nat_uint:
  assumes "n < 2 ^ 64"
  shows "unat ` set (map (of_nat :: nat \<Rightarrow> uint) [1..<Suc n]) = {1..n}"
proof -
  have "unat ` (of_nat :: nat \<Rightarrow> uint) ` {1..<Suc n} = (\<lambda>k. k) ` {1..<Suc n}"
    unfolding image_image using assms by (intro image_cong refl) (simp add: unat_of_nat_uint)
  moreover have "set [1..<Suc n] = {1..<Suc n}" by (rule set_upt)
  moreover have "{1..<Suc n} = {1..n}" by auto
  ultimately show ?thesis by (simp only: set_map image_ident)
qed

section \<open>Runs: the user counter, the identities assigned and the keys present\<close>

lemma step_userID:
  "step c w = Inr (r, w') \<Longrightarrow> userID (db w') = userID (db w) + of_nat (user_creates [c])"
  by (cases c) (auto simp: step_eqs simp del: step.simps(3,4) split: option.splits if_splits)

lemma step_user_ids:
  "step c w = Inr (r, w') \<Longrightarrow> user_ids [r] = replicate (user_creates [c]) (userID (db w))"
  by (cases c)
    (auto simp: step_eqs simp del: step.simps(3,4) split: option.splits if_splits prod.splits)

lemma step_users_dom:
  "step c w = Inr (r, w') \<Longrightarrow> dom (users (db w')) = dom (users (db w)) \<union> set (user_ids [r])"
  by (cases c)
    (auto simp: step_eqs simp del: step.simps(3,4) split: option.splits if_splits prod.splits)

lemma user_ids_Cons: "user_ids (r # rs) = user_ids [r] @ user_ids rs"
  by (cases r) simp_all

lemma user_creates_Cons: "user_creates (c # cs) = user_creates [c] + user_creates cs"
  by (cases c) simp_all

lemma run_user_ids:
  "run cs w = Inr (rs, w') \<Longrightarrow>
     userID (db w') = userID (db w) + of_nat (user_creates cs)
   \<and> user_ids rs = map (\<lambda>i. userID (db w) + of_nat i) [0..<user_creates cs]
   \<and> dom (users (db w')) = dom (users (db w)) \<union> set (user_ids rs)"
proof (induction cs arbitrary: w rs)
  case Nil
  then show ?case by simp
next
  case (Cons c cs)
  from Cons.prems obtain r w1 rs1 where
    s: "step c w = Inr (r, w1)" and r: "run cs w1 = Inr (rs1, w')" and rs: "rs = r # rs1"
    by (rule run_ConsD)
  note IH = Cons.IH [OF r]
  have c1: "user_creates [c] = 0 \<or> user_creates [c] = 1" by (cases c) simp_all
  have ids: "user_ids rs = replicate (user_creates [c]) (userID (db w)) @ user_ids rs1"
    unfolding rs using user_ids_Cons [of r rs1] step_user_ids [OF s] by simp
  have "userID (db w') = userID (db w) + of_nat (user_creates (c # cs))"
    using IH step_userID [OF s] user_creates_Cons [of c cs] by simp
  moreover have "user_ids rs = map (\<lambda>i. userID (db w) + of_nat i) [0..<user_creates (c # cs)]"
  proof -
    from c1 show ?thesis
    proof
      assume z: "user_creates [c] = 0"
      then show ?thesis using ids IH step_userID [OF s] user_creates_Cons [of c cs] by simp
    next
      assume o: "user_creates [c] = 1"
      have "map (\<lambda>i. userID (db w) + of_nat i) [0..<Suc (user_creates cs)]
            = userID (db w) # map (\<lambda>i. userID (db w) + of_nat (Suc i)) [0..<user_creates cs]"
        by (simp add: upt_rec [of 0] map_Suc_upt [symmetric] del: upt_Suc)
      then show ?thesis using o ids IH step_userID [OF s] user_creates_Cons [of c cs]
        by (simp add: add.assoc add.commute)
    qed
  qed
  moreover have "dom (users (db w')) = dom (users (db w)) \<union> set (user_ids rs)"
    using IH step_users_dom [OF s] step_user_ids [OF s] ids by auto
  ultimately show ?case by blast
qed

lemma fresh_user_ids:
  assumes "run cs (NewMemoryDB tu tp uh ph) = Inr (rs, w)"
  shows "user_ids rs = map of_nat [1..<Suc (user_creates cs)]"
    and "userID (db w) = of_nat (Suc (user_creates cs))"
    and "dom (users (db w)) = insert 1 (set (user_ids rs))"
proof -
  note R = run_user_ids [OF assms, unfolded NewMemoryDB_simps]
  have "map (\<lambda>i. (1::uint) + of_nat i) [0..<user_creates cs]
          = map (\<lambda>i. of_nat (Suc i)) [0..<user_creates cs]" by simp
  also have "\<dots> = map of_nat [1..<Suc (user_creates cs)]" by (rule upt_shift)
  finally show "user_ids rs = map of_nat [1..<Suc (user_creates cs)]" using R by simp
  show "userID (db w) = of_nat (Suc (user_creates cs))" using R by simp
  show "dom (users (db w)) = insert 1 (set (user_ids rs))" using R by simp
qed

section \<open>Runs: the product counter, the identities assigned and the keys present\<close>








section \<open>Runs: what stays true of the user map and the user heap\<close>

lemma step_uheap_length:
  "step c w = Inr (r, w') \<Longrightarrow> length (uheap w) \<le> length (uheap w')"
  by (cases c)
    (auto simp: step_eqs simp del: step.simps(3,4) split: option.splits if_splits prod.splits)

lemma step_users_entry:
  "step c w = Inr (r, w') \<Longrightarrow> users (db w') k = Some q \<Longrightarrow>
     users (db w) k = Some q \<or> (\<exists>a. q = Some a \<and> a < length (uheap w))"
  by (cases c)
    (auto simp: step_eqs simp del: step.simps(3,4) split: option.splits if_splits prod.splits)

lemma step_users_valid:
  assumes "step c w = Inr (r, w')" and "users_valid w"
  shows "users_valid w'"
  unfolding users_valid_def
proof (intro allI impI)
  fix k q assume "users (db w') k = Some q"
  from step_users_entry [OF assms(1) this] assms(2)
  obtain a where "q = Some a" "a < length (uheap w)"
    unfolding users_valid_def by blast
  with step_uheap_length [OF assms(1)]
  show "\<exists>a. q = Some a \<and> a < length (uheap w')" by auto
qed

lemma run_users_valid:
  "run cs w = Inr (rs, w') \<Longrightarrow> users_valid w \<Longrightarrow> users_valid w'"
proof (induction cs arbitrary: w rs)
  case Nil
  then show ?case by simp
next
  case (Cons c cs)
  from Cons.prems(1) obtain r w1 rs1 where
    s: "step c w = Inr (r, w1)" and r: "run cs w1 = Inr (rs1, w')"
    by (rule run_ConsD)
  from step_users_valid [OF s Cons.prems(2)] Cons.IH [OF r] show ?case by blast
qed

lemma fresh_users_valid: "users_valid (NewMemoryDB tu tp uh ph)"
  by (simp add: users_valid_def NewMemoryDB_simps)

lemma step_user_frame:
  assumes "step c w = Inr (r, w')" and "a < length (uheap w)" and "Some a \<notin> set (user_args [c])"
  shows "a < length (uheap w') \<and> uheap w' ! a = uheap w ! a"
  using assms
  by (cases c)
    (auto simp: step_eqs nth_append simp del: step.simps(3,4)
      split: option.splits if_splits prod.splits)

lemma user_args_Cons: "user_args (c # cs) = user_args [c] @ user_args cs"
  by (cases c) simp_all

lemma run_user_frame:
  "run cs w = Inr (rs, w') \<Longrightarrow> a < length (uheap w) \<Longrightarrow> Some a \<notin> set (user_args cs) \<Longrightarrow>
     a < length (uheap w') \<and> uheap w' ! a = uheap w ! a"
proof (induction cs arbitrary: w rs)
  case Nil
  then show ?case by simp
next
  case (Cons c cs)
  from Cons.prems(1) obtain r w1 rs1 where
    s: "step c w = Inr (r, w1)" and r: "run cs w1 = Inr (rs1, w')"
    by (rule run_ConsD)
  from Cons.prems(3) have n: "Some a \<notin> set (user_args [c])" "Some a \<notin> set (user_args cs)"
    using user_args_Cons [of c cs] by auto
  from step_user_frame [OF s Cons.prems(2) n(1)]
  have 1: "a < length (uheap w1)" "uheap w1 ! a = uheap w ! a" by simp_all
  from Cons.IH [OF r 1(1) n(2)] 1(2) show ?case by simp
qed

lemma step_user_ids_match:
  assumes "step c w = Inr (r, w')" and "user_ids_match w" and "arg_unshared c w"
  shows "user_ids_match w'"
proof (cases c)
  case (CallCreateUser user now)
  with assms(1) obtain a where a: "user = Some a" "a < length (uheap w)"
    and w': "w' = w\<lparr>uheap := (uheap w)[a := (uheap w ! a)\<lparr>User.ID := userID (db w), User.CreateAt := now\<rparr>],
                   db := (db w)\<lparr>users := (users (db w))(userID (db w) \<mapsto> user),
                                userID := userID (db w) + 1\<rparr>\<rparr>"
    by (auto simp: step_eqs simp del: step.simps(3,4) split: option.splits if_splits)
  from assms(3) CallCreateUser
  have un: "\<And>k. users (db w) k = Some user \<Longrightarrow> k = userID (db w)" by simp
  show ?thesis
    unfolding user_ids_match_def
  proof (intro allI impI)
    fix k q assume kq: "users (db w') k = Some q"
    show "\<exists>b. q = Some b \<and> b < length (uheap w') \<and> User.ID (uheap w' ! b) = k"
    proof (cases "k = userID (db w)")
      case True
      with kq a show ?thesis by (auto simp: w')
    next
      case False
      with kq have old: "users (db w) k = Some q" by (simp add: w')
      with assms(2) obtain b where b: "q = Some b" "b < length (uheap w)" "User.ID (uheap w ! b) = k"
        unfolding user_ids_match_def by blast
      from un [of k] old False have "q \<noteq> user" by blast
      with a b have "b \<noteq> a" by simp
      with b show ?thesis by (simp add: w')
    qed
  qed
next
  case (NewUser x)
  with assms(1) have w': "w' = w\<lparr>uheap := uheap w @ [x]\<rparr>" by simp
  show ?thesis
    unfolding user_ids_match_def
  proof (intro allI impI)
    fix k q assume "users (db w') k = Some q"
    then have "users (db w) k = Some q" by (simp add: w')
    with assms(2) obtain a where "q = Some a" "a < length (uheap w)" "User.ID (uheap w ! a) = k"
      unfolding user_ids_match_def by blast
    then show "\<exists>b. q = Some b \<and> b < length (uheap w') \<and> User.ID (uheap w' ! b) = k"
      by (auto simp: w' nth_append)
  qed
next
  case (NewProduct x)
  with assms(1) have w': "w' = w\<lparr>pheap := pheap w @ [x]\<rparr>" by simp
  show ?thesis
    unfolding user_ids_match_def
  proof (intro allI impI)
    fix k q assume "users (db w') k = Some q"
    then have "users (db w) k = Some q" by (simp add: w')
    with assms(2) obtain a where "q = Some a" "a < length (uheap w)" "User.ID (uheap w ! a) = k"
      unfolding user_ids_match_def by blast
    then show "\<exists>b. q = Some b \<and> b < length (uheap w') \<and> User.ID (uheap w' ! b) = k"
      by (auto simp: w' nth_append)
  qed
next
  case (CallCreateProduct product now)
  with assms(1,2) show ?thesis
    by (auto simp: user_ids_match_def step_eqs simp del: step.simps(3,4)
        split: option.splits if_splits)
next
  case (CallGetUserByID k)
  with assms(1,2) show ?thesis by (auto simp: user_ids_match_def split: prod.splits)
next
  case (CallGetProductByID k)
  with assms(1,2) show ?thesis by (auto simp: user_ids_match_def split: prod.splits)
next
  case (CallGetAllUsers es)
  with assms(1,2) show ?thesis by (auto simp: user_ids_match_def)
next
  case (CallGetAllProducts es)
  with assms(1,2) show ?thesis by (auto simp: user_ids_match_def)
qed

lemma run_user_ids_match:
  "run cs w = Inr (rs, w') \<Longrightarrow> user_ids_match w \<Longrightarrow> unshared cs w \<Longrightarrow> user_ids_match w'"
proof (induction cs arbitrary: w rs)
  case Nil
  then show ?case by simp
next
  case (Cons c cs)
  from Cons.prems(1) obtain r w1 rs1 where
    s: "step c w = Inr (r, w1)" and r: "run cs w1 = Inr (rs1, w')"
    by (rule run_ConsD)
  from Cons.prems(3) s have u: "arg_unshared c w" "unshared cs w1" by simp_all
  from step_user_ids_match [OF s Cons.prems(2) u(1)] Cons.IH [OF r _ u(2)] show ?case by blast
qed

lemma fresh_user_ids_match: "user_ids_match (NewMemoryDB tu tp uh ph)"
  by (simp add: user_ids_match_def NewMemoryDB_simps seed_User_def)

section \<open>Runs: what stays true of the product map and the product heap\<close>

lemma step_product_ids_match:
  assumes "step c w = Inr (r, w')" and "product_ids_match w" and "arg_unshared c w"
  shows "product_ids_match w'"
proof (cases c)
  case (CallCreateProduct product now)
  with assms(1) obtain a where a: "product = Some a" "a < length (pheap w)"
    and w': "w' = w\<lparr>pheap := (pheap w)[a := (pheap w ! a)\<lparr>Product.ID := prodID (db w),
                                         Product.CreateAt := now, Product.IsActive := True\<rparr>],
                   db := (db w)\<lparr>products := (products (db w))(prodID (db w) \<mapsto> product),
                                prodID := prodID (db w) + 1\<rparr>\<rparr>"
    by (auto simp: step_eqs simp del: step.simps(3,4) split: option.splits if_splits)
  from assms(3) CallCreateProduct
  have un: "\<And>k. products (db w) k = Some product \<Longrightarrow> k = prodID (db w)" by simp
  show ?thesis
    unfolding product_ids_match_def
  proof (intro allI impI)
    fix k q assume kq: "products (db w') k = Some q"
    show "\<exists>b. q = Some b \<and> b < length (pheap w') \<and> Product.ID (pheap w' ! b) = k"
    proof (cases "k = prodID (db w)")
      case True
      with kq a show ?thesis by (auto simp: w')
    next
      case False
      with kq have old: "products (db w) k = Some q" by (simp add: w')
      with assms(2) obtain b where b: "q = Some b" "b < length (pheap w)" "Product.ID (pheap w ! b) = k"
        unfolding product_ids_match_def by blast
      from un [of k] old False have "q \<noteq> product" by blast
      with a b have "b \<noteq> a" by simp
      with b show ?thesis by (simp add: w')
    qed
  qed
next
  case (NewUser x)
  with assms(1) have w': "w' = w\<lparr>uheap := uheap w @ [x]\<rparr>" by simp
  show ?thesis
    unfolding product_ids_match_def
  proof (intro allI impI)
    fix k q assume "products (db w') k = Some q"
    then have "products (db w) k = Some q" by (simp add: w')
    with assms(2) obtain a where "q = Some a" "a < length (pheap w)" "Product.ID (pheap w ! a) = k"
      unfolding product_ids_match_def by blast
    then show "\<exists>b. q = Some b \<and> b < length (pheap w') \<and> Product.ID (pheap w' ! b) = k"
      by (auto simp: w' nth_append)
  qed
next
  case (NewProduct x)
  with assms(1) have w': "w' = w\<lparr>pheap := pheap w @ [x]\<rparr>" by simp
  show ?thesis
    unfolding product_ids_match_def
  proof (intro allI impI)
    fix k q assume "products (db w') k = Some q"
    then have "products (db w) k = Some q" by (simp add: w')
    with assms(2) obtain a where "q = Some a" "a < length (pheap w)" "Product.ID (pheap w ! a) = k"
      unfolding product_ids_match_def by blast
    then show "\<exists>b. q = Some b \<and> b < length (pheap w') \<and> Product.ID (pheap w' ! b) = k"
      by (auto simp: w' nth_append)
  qed
next
  case (CallCreateUser user now)
  with assms(1,2) show ?thesis
    by (auto simp: product_ids_match_def step_eqs simp del: step.simps(3,4)
        split: option.splits if_splits)
next
  case (CallGetUserByID k)
  with assms(1,2) show ?thesis by (auto simp: product_ids_match_def split: prod.splits)
next
  case (CallGetProductByID k)
  with assms(1,2) show ?thesis by (auto simp: product_ids_match_def split: prod.splits)
next
  case (CallGetAllUsers es)
  with assms(1,2) show ?thesis by (auto simp: product_ids_match_def)
next
  case (CallGetAllProducts es)
  with assms(1,2) show ?thesis by (auto simp: product_ids_match_def)
qed

lemma run_product_ids_match:
  "run cs w = Inr (rs, w') \<Longrightarrow> product_ids_match w \<Longrightarrow> unshared cs w \<Longrightarrow> product_ids_match w'"
proof (induction cs arbitrary: w rs)
  case Nil
  then show ?case by simp
next
  case (Cons c cs)
  from Cons.prems(1) obtain r w1 rs1 where
    s: "step c w = Inr (r, w1)" and r: "run cs w1 = Inr (rs1, w')"
    by (rule run_ConsD)
  from Cons.prems(3) s have u: "arg_unshared c w" "unshared cs w1" by simp_all
  from step_product_ids_match [OF s Cons.prems(2) u(1)] Cons.IH [OF r _ u(2)] show ?case by blast
qed

lemma fresh_product_ids_match: "product_ids_match (NewMemoryDB tu tp uh ph)"
  by (simp add: product_ids_match_def NewMemoryDB_simps seed_Product_def)

section \<open>CreateUser, one call\<close>

text \<open>
  C2. For every state of the store and every record that the caller really holds (a
  pointer that is not nil), \<open>CreateUser\<close> does not panic; it writes the current value
  of the user counter into the record's identity and the time read into its creation
  timestamp, stores the record in the user map under that identity, adds one to the
  user counter (\<open>uint\<close> arithmetic: the successor of the largest value is 0), and
  returns the same record. No other record and nothing of the product side changes.
\<close>

theorem CreateUser_contract:
  assumes "user = Some a" and "a < length (uheap w)"
  shows "\<exists>w'. CreateUser user now w = Inr (user, w')
           \<and> load_User user w' = Inr ((uheap w ! a)\<lparr>User.ID := userID (db w), User.CreateAt := now\<rparr>)
           \<and> users (db w') = (users (db w))(userID (db w) \<mapsto> user)
           \<and> userID (db w') = userID (db w) + 1
           \<and> unat (userID (db w')) = (unat (userID (db w)) + 1) mod 2 ^ 64
           \<and> length (uheap w') = length (uheap w)
           \<and> (\<forall>b. b \<noteq> a \<longrightarrow> uheap w' ! b = uheap w ! b)
           \<and> products (db w') = products (db w)
           \<and> prodID (db w') = prodID (db w)
           \<and> pheap w' = pheap w"
  using assms by (simp add: CreateUser_eq load_User_def unat_word_ariths)

theorem CreateUser_contract_witness:
  "\<exists>w'. CreateUser (Some 0) 7 (NewMemoryDB 3 4 [] []) = Inr (Some 0, w')
       \<and> load_User (Some 0) w' = Inr ((seed_User 3)\<lparr>User.ID := 1, User.CreateAt := 7\<rparr>)
       \<and> userID (db w') = 2"
  using CreateUser_contract [of "Some 0" 0 "NewMemoryDB 3 4 [] []" 7]
  by (auto simp: NewMemoryDB_def Let_def)

section \<open>N calls of CreateUser on a new store\<close>

lemma user_creates_map [simp]:
  "user_creates (map (\<lambda>(p, t). CallCreateUser p t) cs) = length cs"
  by (induction cs) auto

lemma user_creates_replicate [simp]:
  "user_creates (replicate n (CallCreateUser p t)) = n"
  by (induction n) auto

lemma replicate_as_map:
  "replicate n (CallCreateUser p t) = map (\<lambda>(p, t). CallCreateUser p t) (replicate n (p, t))"
  by simp

lemma run_creates_total:
  "\<forall>(p, t) \<in> set cs. \<exists>a. p = Some a \<and> a < length (uheap w) \<Longrightarrow>
     \<exists>rs w'. run (map (\<lambda>(p, t). CallCreateUser p t) cs) w = Inr (rs, w')"
proof (induction cs arbitrary: w)
  case Nil
  then show ?case by simp
next
  case (Cons c cs)
  obtain p t where c: "c = (p, t)" by (cases c)
  with Cons.prems obtain a where a: "p = Some a" "a < length (uheap w)" by auto
  then obtain r w1 where s: "step (CallCreateUser p t) w = Inr (r, w1)"
    and l: "length (uheap w1) = length (uheap w)"
    by (simp add: step_CreateUser_eq del: step.simps(3,4))
  from Cons.prems l have "\<forall>(p, t) \<in> set cs. \<exists>a. p = Some a \<and> a < length (uheap w1)" by simp
  from Cons.IH [OF this] obtain rs w' where
    "run (map (\<lambda>(p, t). CallCreateUser p t) cs) w1 = Inr (rs, w')" by blast
  with s c show ?case by (simp del: step.simps(3,4))
qed

text \<open>
  C3, as the code has it. \<open>cs\<close> are the \<open>N\<close> calls: the record each is given (any
  record of the heap, the seeded one included, and the same one as often as the caller
  likes) and the time it reads. If \<open>N < 2 ^ 64\<close>, no call panics and the identities
  assigned are \<open>1, 2, ..., N\<close> in call order: no duplicate, no gap.
\<close>

theorem create_users_ids:
  assumes "\<forall>(p, t) \<in> set cs. \<exists>a. p = Some a \<and> a \<le> length uh"
      and "length cs < 2 ^ 64"
  shows "\<exists>rs w. run (map (\<lambda>(p, t). CallCreateUser p t) cs) (NewMemoryDB tu tp uh ph) = Inr (rs, w)
           \<and> user_ids rs = map of_nat [1..<Suc (length cs)]
           \<and> distinct (user_ids rs)
           \<and> unat ` set (user_ids rs) = {1..length cs}"
proof -
  from assms(1) have "\<forall>(p, t) \<in> set cs. \<exists>a. p = Some a \<and> a < length (uheap (NewMemoryDB tu tp uh ph))"
    by (auto simp: NewMemoryDB_simps less_Suc_eq_le)
  from run_creates_total [OF this] obtain rs w where
    r: "run (map (\<lambda>(p, t). CallCreateUser p t) cs) (NewMemoryDB tu tp uh ph) = Inr (rs, w)"
    by blast
  have ids: "user_ids rs = map of_nat [1..<Suc (length cs)]"
    using fresh_user_ids(1) [OF r] by simp
  have "sorted_wrt (<) (user_ids rs)"
    unfolding ids by (rule sorted_of_nat_uint [OF assms(2)])
  then have "distinct (user_ids rs)" by (simp add: strict_sorted_iff)
  moreover have "unat ` set (user_ids rs) = {1..length cs}"
    unfolding ids by (rule unat_image_of_nat_uint [OF assms(2)])
  ultimately show ?thesis using r ids by blast
qed

theorem create_users_ids_witness:
  "\<exists>rs w. run [CallCreateUser (Some 0) 5, CallCreateUser (Some 1) 6, CallCreateUser (Some 0) 7]
            (NewMemoryDB 1 2 [seed_User 0] []) = Inr (rs, w)
       \<and> user_ids rs = [1, 2, 3]"
  using create_users_ids [of "[(Some 0, 5), (Some 1, 6), (Some 0, 7)]" "[seed_User 0]" 1 2 "[]"]
  by (simp add: upt_rec del: run.simps) blast

text \<open>
  C3 as stated, for every \<open>N\<close>, fails at \<open>N = 2 ^ 64\<close>: the counter starts at 1, so the
  last of \<open>2 ^ 64\<close> calls finds it wrapped around to 0 and is assigned identity 0.
\<close>

theorem create_users_ids_counterexample:
  "length (created_user_ids (replicate (2 ^ 64) (CallCreateUser (Some 0) 0)) (NewMemoryDB 0 0 [] [])) = 2 ^ 64
   \<and> 0 \<in> set (created_user_ids (replicate (2 ^ 64) (CallCreateUser (Some 0) 0)) (NewMemoryDB 0 0 [] []))
   \<and> unat ` set (created_user_ids (replicate (2 ^ 64) (CallCreateUser (Some 0) 0)) (NewMemoryDB 0 0 [] []))
       \<noteq> {1..2 ^ 64}"
proof -
  let ?cs = "replicate (2 ^ 64) (CallCreateUser (Some 0) 0)"
  let ?w = "NewMemoryDB 0 0 [] []"
  have "\<forall>(p, t) \<in> set (replicate (2 ^ 64) (Some (0::nat), 0::gotime)). \<exists>a. p = Some a \<and> a < length (uheap ?w)"
    by (simp add: NewMemoryDB_simps)
  from run_creates_total [OF this] obtain rs w where r: "run ?cs ?w = Inr (rs, w)"
    unfolding replicate_as_map by blast
  have c: "created_user_ids ?cs ?w = user_ids rs"
    unfolding created_user_ids_def r by simp
  have ids: "user_ids rs = map of_nat [1..<Suc (2 ^ 64)]"
    using fresh_user_ids(1) [OF r] by simp
  have l: "length (user_ids rs) = 2 ^ 64" unfolding ids by simp
  have e: "(of_nat (2 ^ 64) :: uint) = 0" by simp
  have "(of_nat (2 ^ 64) :: uint) \<in> set (user_ids rs)"
    unfolding ids by (simp del: upt_Suc of_nat_numeral of_nat_power)
  then have z: "0 \<in> set (user_ids rs)" by (simp only: e)
  then have "unat (0::uint) \<in> unat ` set (user_ids rs)" by (rule imageI)
  then have "0 \<in> unat ` set (user_ids rs)" by simp
  moreover have "(0::nat) \<notin> {1..2 ^ 64}" by simp
  ultimately have "unat ` set (user_ids rs) \<noteq> {1..2 ^ 64}" by metis
  with l z show ?thesis unfolding c by blast
qed

section \<open>Identities grow\<close>





section \<open>A new store\<close>

text \<open>
  C10. \<open>NewMemoryDB\<close> stores the seeded user (username \<open>admin\<close>) and the seeded product
  under identity 1 and leaves both counters at 1. On the new store \<open>GetUserByID 1\<close> and
  \<open>GetProductByID 1\<close> find them. The first \<open>CreateUser\<close>, given any record \<open>a\<close> of the
  heap, is assigned identity 1, and afterwards the user map holds that record under 1
  and nothing else: the seeded record is no longer in the store. Likewise the first
  \<open>CreateProduct\<close>.
\<close>

theorem new_store_seeded:
  "users (db (NewMemoryDB tu tp uh ph)) = [1 \<mapsto> Some (length uh)]
   \<and> load_User (Some (length uh)) (NewMemoryDB tu tp uh ph) = Inr (seed_User tu)
   \<and> User.ID (seed_User tu) = 1
   \<and> Username (seed_User tu) = ''admin''
   \<and> products (db (NewMemoryDB tu tp uh ph)) = [1 \<mapsto> Some (length ph)]
   \<and> load_Product (Some (length ph)) (NewMemoryDB tu tp uh ph) = Inr (seed_Product tp)
   \<and> Product.ID (seed_Product tp) = 1
   \<and> userID (db (NewMemoryDB tu tp uh ph)) = 1
   \<and> prodID (db (NewMemoryDB tu tp uh ph)) = 1
   \<and> GetUserByID 1 (NewMemoryDB tu tp uh ph) = (Some (length uh), True)
   \<and> GetProductByID 1 (NewMemoryDB tu tp uh ph) = (Some (length ph), True)
   \<and> (a \<le> length uh \<longrightarrow>
        (\<exists>w' u. CreateUser (Some a) now (NewMemoryDB tu tp uh ph) = Inr (Some a, w')
           \<and> load_User (Some a) w' = Inr u \<and> User.ID u = 1
           \<and> users (db w') = [1 \<mapsto> Some a]))
   \<and> (b \<le> length ph \<longrightarrow>
        (\<exists>w' p. CreateProduct (Some b) now (NewMemoryDB tu tp uh ph) = Inr (Some b, w')
           \<and> load_Product (Some b) w' = Inr p \<and> Product.ID p = 1
           \<and> products (db w') = [1 \<mapsto> Some b]))"
  by (simp add: NewMemoryDB_simps load_User_def load_Product_def GetUserByID_def
      GetProductByID_def CreateUser_eq CreateProduct_eq seed_User_def seed_Product_def
      less_Suc_eq_le)

theorem new_store_seeded_witness:
  "(0::nat) \<le> length [zero_User]
   \<and> (\<exists>w' u. CreateUser (Some 0) 5 (NewMemoryDB 1 2 [zero_User] [zero_Product]) = Inr (Some 0, w')
         \<and> load_User (Some 0) w' = Inr u \<and> User.ID u = 1
         \<and> users (db w') = [1 \<mapsto> Some 0])
   \<and> (\<exists>w' p. CreateProduct (Some 0) 5 (NewMemoryDB 1 2 [zero_User] [zero_Product]) = Inr (Some 0, w')
         \<and> load_Product (Some 0) w' = Inr p \<and> Product.ID p = 1
         \<and> products (db w') = [1 \<mapsto> Some 0])"
  using new_store_seeded [of 1 2 "[zero_User]" "[zero_Product]" 0 5 0]
  by simp

section \<open>Create, then look up\<close>

text \<open>
  C5. Whenever \<open>CreateUser\<close> returns a record, \<open>GetUserByID\<close> of that record's identity
  on the resulting store finds the very record that was returned. On a new store, one
  \<open>CreateUser\<close> of any record \<open>a\<close> of the heap (in the scenario: a record with
  username \<open>admin\<close> and email \<open>admin@example.com\<close>) returns it with identity 1, with
  the time read as its creation timestamp (not the zero time, as the clock does not
  read zero) and with the active flag, username and email it came with; after that
  \<open>GetUserByID 1\<close> finds this record and \<open>GetUserByID 2\<close> finds nothing.
\<close>

theorem create_then_get:
  "(CreateUser user now w = Inr (r, w') \<longrightarrow>
      (\<exists>u. load_User r w' = Inr u \<and> GetUserByID (User.ID u) w' = (r, True)))
   \<and> (a \<le> length uh \<longrightarrow>
        (\<exists>v u. CreateUser (Some a) now (NewMemoryDB tu tp uh ph) = Inr (Some a, v)
           \<and> load_User (Some a) v = Inr u
           \<and> User.ID u = 1
           \<and> User.CreateAt u = now
           \<and> (now \<noteq> 0 \<longrightarrow> User.CreateAt u \<noteq> 0)
           \<and> User.IsActive u = User.IsActive ((uh @ [seed_User tu]) ! a)
           \<and> Username u = Username ((uh @ [seed_User tu]) ! a)
           \<and> Email u = Email ((uh @ [seed_User tu]) ! a)
           \<and> GetUserByID 1 v = (Some a, True)
           \<and> GetUserByID 2 v = (None, False)))"
  by (auto simp: CreateUser_eq load_User_def GetUserByID_def NewMemoryDB_simps less_Suc_eq_le
      split: option.splits if_splits)

theorem create_then_get_witness:
  "(\<exists>v u. CreateUser (Some 0) 5
             (NewMemoryDB 1 2 [zero_User\<lparr>Username := ''admin'', Email := ''admin@example.com'',
                                         User.IsActive := True\<rparr>] [])
           = Inr (Some 0, v)
      \<and> load_User (Some 0) v = Inr u
      \<and> u = \<lparr>User.ID = 1, Username = ''admin'', Email = ''admin@example.com'', FullName = [],
              User.IsActive = True, User.CreateAt = 5\<rparr>
      \<and> GetUserByID (User.ID u) v = (Some 0, True)
      \<and> GetUserByID 2 v = (None, False))"
proof -
  let ?u0 = "zero_User\<lparr>Username := ''admin'', Email := ''admin@example.com'', User.IsActive := True\<rparr>"
  let ?w0 = "NewMemoryDB 1 2 [?u0] []"
  obtain v where c: "CreateUser (Some 0) 5 ?w0 = Inr (Some 0, v)"
    by (simp add: CreateUser_eq NewMemoryDB_simps)
  note T = create_then_get [of "Some 0" 5 ?w0 "Some 0" v 0 "[?u0]" 1 2 "[]"]
  from T c obtain u where u: "load_User (Some 0) v = Inr u"
    and g: "GetUserByID (User.ID u) v = (Some 0, True)" by auto
  from T c u have f: "User.ID u = 1" "User.CreateAt u = 5" "User.CreateAt u \<noteq> 0"
    "User.IsActive u = True" "Username u = ''admin''" "Email u = ''admin@example.com''"
    "GetUserByID 2 v = (None, False)"
    by (auto simp: zero_User_def)
  from c u have "FullName u = []"
    by (auto simp: CreateUser_eq NewMemoryDB_simps load_User_def zero_User_def)
  with f have "u = \<lparr>User.ID = 1, Username = ''admin'', Email = ''admin@example.com'', FullName = [],
              User.IsActive = True, User.CreateAt = 5\<rparr>" by (cases u) simp
  with c u g f show ?thesis by blast
qed

section \<open>Looking up an identity\<close>

text \<open>
  C8. \<open>GetUserByID\<close> has no failure: its result is a pointer and a flag. In every
  state, an identity that is a key of the user map is found, with the record stored
  under it, and any other identity gives \<open>nil\<close> and \<open>false\<close>. In a state reached from a
  new store the keys are exactly the identities the store has assigned: the one that
  \<open>NewMemoryDB\<close> gave the seeded user, and those assigned by the create calls so far.
  So an identity the store never assigned is not found.
\<close>

theorem get_user_found:
  assumes "run cs (NewMemoryDB tu tp uh ph) = Inr (rs, w)"
  shows "(id' \<noteq> User.ID (seed_User tu) \<and> id' \<notin> set (user_ids rs) \<longrightarrow>
            GetUserByID id' w = (None, False))
       \<and> (id' = User.ID (seed_User tu) \<or> id' \<in> set (user_ids rs) \<longrightarrow>
            (\<exists>r. users (db w) id' = Some r \<and> GetUserByID id' w = (r, True)))
       \<and> (\<forall>v. (users (db v) id' = None \<longrightarrow> GetUserByID id' v = (None, False))
              \<and> (\<forall>r. users (db v) id' = Some r \<longrightarrow> GetUserByID id' v = (r, True)))"
proof -
  have "id' \<in> dom (users (db w)) \<longleftrightarrow> id' = User.ID (seed_User tu) \<or> id' \<in> set (user_ids rs)"
    unfolding fresh_user_ids(3) [OF assms] by (simp add: seed_User_def)
  then show ?thesis by (auto simp: GetUserByID_def dom_def split: option.splits)
qed

theorem get_user_found_witness:
  "GetUserByID 7 (snd (projr (run [CallCreateUser (Some 0) 5, CallCreateUser (Some 0) 6]
                               (NewMemoryDB 1 2 [] [])))) = (None, False)
   \<and> GetUserByID 2 (snd (projr (run [CallCreateUser (Some 0) 5, CallCreateUser (Some 0) 6]
                               (NewMemoryDB 1 2 [] [])))) = (Some 0, True)"
proof -
  let ?cs = "[CallCreateUser (Some 0) 5, CallCreateUser (Some 0) 6]"
  let ?w0 = "NewMemoryDB 1 2 [] []"
  obtain rs w where r: "run ?cs ?w0 = Inr (rs, w)" and ids: "user_ids rs = [1, 2]"
    and u: "users (db w) 2 = Some (Some 0)"
    by (simp add: step_eqs NewMemoryDB_simps del: step.simps(3,4))
  from get_user_found [OF r, of 7] ids have "GetUserByID 7 w = (None, False)"
    by (simp add: seed_User_def)
  moreover from get_user_found [OF r, of 2] ids u have "GetUserByID 2 w = (Some 0, True)"
    by (simp add: seed_User_def)
  ultimately show ?thesis by (simp only: r sum.sel snd_conv) 
qed

section \<open>What a create call changes in the record\<close>

text \<open>
  C4, as the code has it. \<open>CreateUser\<close> changes the identity and the creation timestamp
  of the record and leaves its username, email, full name and active flag as they
  were. \<open>CreateProduct\<close> stores and counts as \<open>CreateUser\<close> does, in the product map and
  with the product counter, and leaves the user side alone; it changes the identity
  and the creation timestamp, and it sets the active flag to true whatever the caller
  supplied. Name, description, price, stock and category stay as they were.
\<close>

theorem create_frame:
  "(a < length (uheap w) \<longrightarrow>
      (\<exists>w' u. CreateUser (Some a) now w = Inr (Some a, w')
         \<and> users (db w') (userID (db w)) = Some (Some a)
         \<and> load_User (Some a) w' = Inr u
         \<and> User.ID u = userID (db w)
         \<and> User.CreateAt u = now
         \<and> Username u = Username (uheap w ! a)
         \<and> Email u = Email (uheap w ! a)
         \<and> FullName u = FullName (uheap w ! a)
         \<and> User.IsActive u = User.IsActive (uheap w ! a)))
   \<and> (b < length (pheap w) \<longrightarrow>
      (\<exists>w' p. CreateProduct (Some b) now w = Inr (Some b, w')
         \<and> products (db w') = (products (db w))(prodID (db w) \<mapsto> Some b)
         \<and> prodID (db w') = prodID (db w) + 1
         \<and> users (db w') = users (db w) \<and> userID (db w') = userID (db w) \<and> uheap w' = uheap w
         \<and> load_Product (Some b) w' = Inr p
         \<and> Product.ID p = prodID (db w)
         \<and> Product.CreateAt p = now
         \<and> Product.IsActive p = True
         \<and> Name p = Name (pheap w ! b)
         \<and> Description p = Description (pheap w ! b)
         \<and> Price p = Price (pheap w ! b)
         \<and> Stock p = Stock (pheap w ! b)
         \<and> Category p = Category (pheap w ! b)))"
  by (simp add: CreateUser_eq CreateProduct_eq load_User_def load_Product_def)

theorem create_frame_witness:
  "(\<exists>w' u. CreateUser (Some 0) 5 (NewMemoryDB 1 2 [zero_User] [zero_Product]) = Inr (Some 0, w')
       \<and> load_User (Some 0) w' = Inr u \<and> User.ID u = 1 \<and> User.IsActive u = False)
   \<and> (\<exists>w' p. CreateProduct (Some 0) 5 (NewMemoryDB 1 2 [zero_User] [zero_Product]) = Inr (Some 0, w')
       \<and> load_Product (Some 0) w' = Inr p \<and> Product.ID p = 1 \<and> Product.IsActive p = True)"
  using create_frame [of 0 "NewMemoryDB 1 2 [zero_User] [zero_Product]" 5 0]
  by (auto simp: NewMemoryDB_simps zero_User_def)

text \<open>
  C4 as stated fails on the active flag of a product: a record that comes with the flag
  false is stored and returned with the flag true.
\<close>

theorem create_frame_counterexample:
  "Product.IsActive zero_Product = False
   \<and> CreateProduct (Some 0) 5 (NewMemoryDB 1 2 [] [zero_Product])
       = Inr (Some 0, snd (projr (CreateProduct (Some 0) 5 (NewMemoryDB 1 2 [] [zero_Product]))))
   \<and> load_Product (Some 0) (snd (projr (CreateProduct (Some 0) 5 (NewMemoryDB 1 2 [] [zero_Product]))))
       = Inr (zero_Product\<lparr>Product.ID := 1, Product.CreateAt := 5, Product.IsActive := True\<rparr>)
   \<and> Product.IsActive (zero_Product\<lparr>Product.ID := 1, Product.CreateAt := 5, Product.IsActive := True\<rparr>)
       \<noteq> Product.IsActive zero_Product"
  by (simp add: CreateProduct_eq NewMemoryDB_simps load_Product_def zero_Product_def)

section \<open>The identity of a stored record and its key\<close>

text \<open>
  C6, as the code has it. The maps hold the caller's pointers, so the property depends
  on what the callers pass: in every state reached from a new store by allocations,
  creates, lookups and listings in which every create is given a record that the store
  does not already hold under another key (as the handlers do, which pass a record
  just allocated), every record in the user map has the identity it is stored under,
  and every record in the product map likewise.
\<close>

theorem stored_identity_is_key:
  assumes "run cs (NewMemoryDB tu tp uh ph) = Inr (rs, w)"
      and "unshared cs (NewMemoryDB tu tp uh ph)"
  shows "user_ids_match w \<and> product_ids_match w"
  using run_user_ids_match [OF assms(1) fresh_user_ids_match assms(2)]
    run_product_ids_match [OF assms(1) fresh_product_ids_match assms(2)]
  by blast

theorem stored_identity_is_key_witness:
  "\<exists>rs w. run [NewUser zero_User, CallCreateUser (Some 1) 5, CallGetUserByID 1,
              NewProduct zero_Product, CallCreateProduct (Some 1) 6, CallCreateUser (Some 0) 7]
             (NewMemoryDB 1 2 [] []) = Inr (rs, w)
      \<and> users (db w) 2 = Some (Some 0)
      \<and> user_ids_match w \<and> product_ids_match w"
proof -
  let ?cs = "[NewUser zero_User, CallCreateUser (Some 1) 5, CallGetUserByID 1,
              NewProduct zero_Product, CallCreateProduct (Some 1) 6, CallCreateUser (Some 0) 7]"
  let ?w0 = "NewMemoryDB 1 2 [] []"
  obtain rs w where r: "run ?cs ?w0 = Inr (rs, w)" and u: "users (db w) 2 = Some (Some 0)"
    by (simp add: step_eqs NewMemoryDB_simps del: step.simps(3,4))
  have "unshared ?cs ?w0"
    by (simp add: step_eqs NewMemoryDB_simps del: step.simps(3,4))
  from stored_identity_is_key [OF r this] r u show ?thesis by blast
qed

text \<open>
  C6 as stated, for any sequence of creates, fails when a record is passed to
  \<open>CreateUser\<close> twice: the second call writes identity 2 into the record that the map
  still holds under key 1.
\<close>

theorem stored_identity_is_key_counterexample:
  "run [CallCreateUser (Some 0) 5, CallCreateUser (Some 0) 6] (NewMemoryDB 1 2 [zero_User] [])
     = Inr (fst (projr (run [CallCreateUser (Some 0) 5, CallCreateUser (Some 0) 6]
                          (NewMemoryDB 1 2 [zero_User] []))),
            snd (projr (run [CallCreateUser (Some 0) 5, CallCreateUser (Some 0) 6]
                          (NewMemoryDB 1 2 [zero_User] []))))
   \<and> users (db (snd (projr (run [CallCreateUser (Some 0) 5, CallCreateUser (Some 0) 6]
                               (NewMemoryDB 1 2 [zero_User] []))))) 1 = Some (Some 0)
   \<and> load_User (Some 0) (snd (projr (run [CallCreateUser (Some 0) 5, CallCreateUser (Some 0) 6]
                                       (NewMemoryDB 1 2 [zero_User] []))))
       = Inr (zero_User\<lparr>User.ID := 2, User.CreateAt := 6\<rparr>)
   \<and> \<not> user_ids_match (snd (projr (run [CallCreateUser (Some 0) 5, CallCreateUser (Some 0) 6]
                                        (NewMemoryDB 1 2 [zero_User] []))))"
proof -
  let ?cs = "[CallCreateUser (Some 0) 5, CallCreateUser (Some 0) 6]"
  let ?w0 = "NewMemoryDB 1 2 [zero_User] []"
  obtain rs w where r: "run ?cs ?w0 = Inr (rs, w)"
    and u: "users (db w) 1 = Some (Some 0)"
    and l: "load_User (Some 0) w = Inr (zero_User\<lparr>User.ID := 2, User.CreateAt := 6\<rparr>)"
    by (simp add: step_eqs NewMemoryDB_simps load_User_def del: step.simps(3,4))
  have "\<not> user_ids_match w"
  proof
    assume "user_ids_match w"
    with u obtain a where "Some 0 = Some a" "a < length (uheap w)" "User.ID (uheap w ! a) = 1"
      unfolding user_ids_match_def by blast
    with l show False by (simp add: load_User_def split: if_splits)
  qed
  with r u l show ?thesis by simp
qed

section \<open>Listing\<close>

lemma foldl_append_snd:
  "foldl (\<lambda>xs (_, x). xs @ [x]) acc es = acc @ map snd es"
  by (induction es arbitrary: acc) (simp_all add: case_prod_beta)

lemma GetAllUsers_eq: "GetAllUsers es w = map snd es"
  by (simp add: GetAllUsers_def foldl_append_snd)

lemma range_order_entries:
  assumes "range_order m es"
  shows "set (map fst es) = dom m" and "\<forall>(k, r) \<in> set es. m k = Some r"
proof -
  from assms have d: "distinct (map fst es)" and m: "map_of es = m"
    by (simp_all add: range_order_def)
  show "set (map fst es) = dom m"
    unfolding m [symmetric] by (simp add: dom_map_of_conv_image_fst)
  show "\<forall>(k, r) \<in> set es. m k = Some r"
    unfolding m [symmetric] using d by (auto intro: map_of_is_SomeI)
qed

lemma load_User_frame:
  assumes "a < length (uheap w)" and "a < length (uheap w')" and "uheap w' ! a = uheap w ! a"
  shows "load_User (Some a) w' = load_User (Some a) w"
  using assms by (simp add: load_User_def)

text \<open>
  C7, as the code has it. In a state of the store (any state reached from a new store),
  with \<open>es\<close> the order in which the runtime ranges over the user map, \<open>GetAllUsers\<close>
  returns the pointers of the entries in that order: one element for each stored
  identity, each the record stored under it. The slice is new, and nothing the store
  does later can reach it; the records it points to are the store's own, so what a
  caller reads through the slice stays the same under later allocations, creates,
  lookups and listings as long as no later \<open>CreateUser\<close> is given one of the records in
  the slice.
\<close>

theorem list_users_snapshot:
  assumes "run cs0 (NewMemoryDB tu tp uh ph) = Inr (rs0, w)"
      and "range_order (users (db w)) es"
  shows "GetAllUsers es w = map snd es
       \<and> distinct (map fst es)
       \<and> set (map fst es) = dom (users (db w))
       \<and> (\<forall>(k, r) \<in> set es. users (db w) k = Some r)
       \<and> length (GetAllUsers es w) = card (dom (users (db w)))
       \<and> (\<forall>cs rs w'. run cs w = Inr (rs, w') \<and> set (user_args cs) \<inter> set (GetAllUsers es w) = {}
             \<longrightarrow> user_records (GetAllUsers es w) w' = user_records (GetAllUsers es w) w)"
proof (intro conjI allI impI)
  show "GetAllUsers es w = map snd es" by (rule GetAllUsers_eq)
  show d: "distinct (map fst es)" using assms(2) by (simp add: range_order_def)
  show k: "set (map fst es) = dom (users (db w))" by (rule range_order_entries(1) [OF assms(2)])
  show e: "\<forall>(k, r) \<in> set es. users (db w) k = Some r" by (rule range_order_entries(2) [OF assms(2)])
  from d k have "card (dom (users (db w))) = length (map fst es)"
    using distinct_card [of "map fst es"] by simp
  then show "length (GetAllUsers es w) = card (dom (users (db w)))"
    by (simp add: GetAllUsers_eq)
next
  fix cs rs w'
  assume a: "run cs w = Inr (rs, w') \<and> set (user_args cs) \<inter> set (GetAllUsers es w) = {}"
  have v: "users_valid w" by (rule run_users_valid [OF assms(1) fresh_users_valid])
  have "load_User q w' = load_User q w" if q: "q \<in> set (map snd es)" for q
  proof -
    from q obtain k where "(k, q) \<in> set es" by auto
    with range_order_entries(2) [OF assms(2)] have "users (db w) k = Some q" by auto
    with v obtain b where b: "q = Some b" "b < length (uheap w)"
      unfolding users_valid_def by blast
    from a q b have "Some b \<notin> set (user_args cs)" by (auto simp: GetAllUsers_eq)
    from run_user_frame [OF _ b(2) this] a
    have "b < length (uheap w')" and "uheap w' ! b = uheap w ! b" by blast+
    with b(2) have "load_User (Some b) w' = load_User (Some b) w" by (intro load_User_frame)
    with b(1) show ?thesis by simp
  qed
  then show "user_records (GetAllUsers es w) w' = user_records (GetAllUsers es w) w"
    by (simp add: user_records_def GetAllUsers_eq)
qed

theorem list_users_snapshot_witness:
  "range_order (users (db (NewMemoryDB 1 2 [zero_User] []))) [(1, Some 1)]
   \<and> GetAllUsers [(1, Some 1)] (NewMemoryDB 1 2 [zero_User] []) = [Some 1]
   \<and> (\<exists>rs w'. run [CallCreateUser (Some 0) 5] (NewMemoryDB 1 2 [zero_User] []) = Inr (rs, w')
         \<and> user_records [Some 1] w' = [Inr (seed_User 1)])"
proof -
  let ?w = "NewMemoryDB 1 2 [zero_User] []"
  have r0: "run [] ?w = Inr ([], ?w)" by simp
  have o: "range_order (users (db ?w)) [(1, Some 1)]"
    by (simp add: range_order_def NewMemoryDB_simps)
  obtain rs w' where r: "run [CallCreateUser (Some 0) 5] ?w = Inr (rs, w')"
    by (simp add: step_eqs NewMemoryDB_simps del: step.simps(3,4))
  note T = list_users_snapshot [OF r0 o]
  note S = T [THEN conjunct2, THEN conjunct2, THEN conjunct2, THEN conjunct2, THEN conjunct2,
    rule_format, of "[CallCreateUser (Some 0) 5]" rs w']
  have g: "GetAllUsers [(1, Some 1)] ?w = [Some 1]" by (simp add: GetAllUsers_eq)
  have i: "set (user_args [CallCreateUser (Some 0) 5]) \<inter> set (GetAllUsers [(1, Some 1)] ?w) = {}"
    by (simp add: GetAllUsers_eq)
  from S [OF conjI [OF r i]]
  have "user_records (GetAllUsers [(1, Some 1)] ?w) w' = user_records (GetAllUsers [(1, Some 1)] ?w) ?w" .
  then have "user_records [Some 1] w' = user_records [Some 1] ?w" unfolding g .
  moreover have "user_records [Some 1] ?w = [Inr (seed_User 1)]"
    by (simp add: user_records_def load_User_def NewMemoryDB_simps)
  ultimately have "user_records [Some 1] w' = [Inr (seed_User 1)]" by simp
  with o g r show ?thesis by (intro conjI exI) assumption+
qed

text \<open>
  C7 as stated, for any later create, fails when a later \<open>CreateUser\<close> is given a record of
  the slice: the caller holding the slice reads a different record afterwards.
\<close>

theorem list_users_snapshot_counterexample:
  "range_order (users (db (NewMemoryDB 1 2 [] []))) [(1, Some 0)]
   \<and> GetAllUsers [(1, Some 0)] (NewMemoryDB 1 2 [] []) = [Some 0]
   \<and> user_records [Some 0] (NewMemoryDB 1 2 [] []) = [Inr (seed_User 1)]
   \<and> CreateUser (Some 0) 7 (NewMemoryDB 1 2 [] [])
       = Inr (Some 0, snd (projr (CreateUser (Some 0) 7 (NewMemoryDB 1 2 [] []))))
   \<and> user_records [Some 0] (snd (projr (CreateUser (Some 0) 7 (NewMemoryDB 1 2 [] []))))
       = [Inr (seed_User 7)]
   \<and> seed_User 7 \<noteq> seed_User 1"
  by (simp add: range_order_def NewMemoryDB_simps GetAllUsers_eq user_records_def load_User_def
      CreateUser_eq seed_User_def)

end
